theory Spec2Isabelle
  imports Complex_Main "HOL-Library.Stream"
begin

section \<open>Lattice coordinate codec\<close>

text \<open>
  A \<open>Point2i\<close> is a pair of integer-valued JavaScript numbers; a \<open>LatticePoint\<close> is the
  string key \<open><x>,<y>\<close> of the occupancy object. JavaScript numbers are modelled as
  exact reals where a fractional value can occur (random draws, interpolation) and as
  \<open>int\<close> where the code only ever produces integers (grid coordinates, milliseconds);
  floating-point rounding is not modelled.
\<close>

type_synonym Point2i = "int \<times> int"

type_synonym LatticePoint = string

text \<open>
  \<open>x | 0\<close> is the ToInt32 conversion: truncate toward zero, reduce modulo \<open>2^32\<close>, and
  read the result as a signed 32-bit integer.
\<close>

definition toInt32 :: "real \<Rightarrow> int" where
  "toInt32 x =
     (let t = (if x < 0 then \<lceil>x\<rceil> else \<lfloor>x\<rfloor>);
          m = t mod 4294967296
      in if 2147483648 \<le> m then m - 4294967296 else m)"

text \<open>Decimal digits of a natural number, most significant first.\<close>

fun digitsOf :: "nat \<Rightarrow> string" where
  "digitsOf n =
     (if n < 10 then [char_of (48 + n)]
      else digitsOf (n div 10) @ [char_of (48 + n mod 10)])"

declare digitsOf.simps [simp del]

text \<open>Number-to-string conversion of the template literal, for integer values.\<close>

definition numberToString :: "int \<Rightarrow> string" where
  "numberToString i =
     (if i < 0 then CHR ''-'' # digitsOf (nat (- i)) else digitsOf (nat i))"

definition toLatticePoint :: "real \<Rightarrow> real \<Rightarrow> LatticePoint" where
  "toLatticePoint x y =
     numberToString (toInt32 x) @ '','' @ numberToString (toInt32 y)"

text \<open>\<open>String.prototype.split\<close> with a one-character separator.\<close>

fun splitOn :: "char \<Rightarrow> string \<Rightarrow> string list" where
  "splitOn sep [] = [[]]"
| "splitOn sep (c # cs) =
     (if c = sep then [] # splitOn sep cs
      else (case splitOn sep cs of
              [] \<Rightarrow> [[c]]
            | w # ws \<Rightarrow> (c # w) # ws))"

text \<open>
  \<open>parseInt(s)\<close> with no radix argument: leading white space is skipped, an optional
  sign is read, a \<open>0x\<close>/\<open>0X\<close> prefix selects radix 16 (radix 10 otherwise), and the
  longest prefix of digits of that radix is the value. With no digit the result is
  \<open>NaN\<close>, modelled as \<open>None\<close>.
\<close>

definition isWhiteSpace :: "char \<Rightarrow> bool" where
  "isWhiteSpace c = (of_char c \<in> {9, 10, 11, 12, 13, 32 :: nat})"

definition radixDigit :: "nat \<Rightarrow> char \<Rightarrow> nat option" where
  "radixDigit r c =
     (let k = (of_char c :: nat);
          v = (if 48 \<le> k \<and> k \<le> 57 then Some (k - 48)
               else if 97 \<le> k \<and> k \<le> 122 then Some (k - 87)
               else if 65 \<le> k \<and> k \<le> 90 then Some (k - 55)
               else None)
      in case v of None \<Rightarrow> None | Some d \<Rightarrow> if d < r then Some d else None)"

definition digitsValue :: "nat \<Rightarrow> string \<Rightarrow> nat" where
  "digitsValue r z =
     foldl (\<lambda>a c. case radixDigit r c of None \<Rightarrow> a | Some d \<Rightarrow> a * r + d) 0 z"

definition parseInt :: "string \<Rightarrow> int option" where
  "parseInt s =
     (let s1 = dropWhile isWhiteSpace s;
          (sign, s2) = (case s1 of
                          [] \<Rightarrow> (1 :: int, s1)
                        | c # cs \<Rightarrow> if c = CHR ''-'' then (- 1, cs)
                                    else if c = CHR ''+'' then (1, cs)
                                    else (1, s1));
          (r, s3) = (case s2 of
                       a # b # cs \<Rightarrow>
                         if a = CHR ''0'' \<and> (b = CHR ''x'' \<or> b = CHR ''X'')
                         then (16 :: nat, cs) else (10, s2)
                     | _ \<Rightarrow> (10, s2));
          z = takeWhile (\<lambda>c. radixDigit r c \<noteq> None) s3
      in if z = [] then None else Some (sign * int (digitsValue r z)))"

text \<open>
  The destructuring \<open>[x, y]\<close> takes the first two parsed fields; a field that is
  missing (\<open>undefined\<close>) or not a number (\<open>NaN\<close>) is \<open>None\<close>.
\<close>

definition fromLatticePoint :: "LatticePoint \<Rightarrow> int option \<times> int option" where
  "fromLatticePoint p =
     (case map parseInt (splitOn CHR '','' p) of
        [] \<Rightarrow> (None, None)
      | [x] \<Rightarrow> (x, None)
      | x # y # _ \<Rightarrow> (x, y))"


section \<open>World model\<close>

text \<open>
  The TypeScript type \<open>WireDirection\<close> is the union of the three string literals
  \<open>'down-left'\<close>, \<open>'down'\<close> and \<open>'down-right'\<close>; it is erased at run time, where a
  direction is whatever value is stored. The model keeps the run-time view: a direction
  is a string (\<open>Str\<close>) or \<open>undefined\<close> (what an out-of-range array read yields).
\<close>

datatype WireDirection = Str string | Undefined

text \<open>\<open>TipPosition = false | 'begin' | 'end' | 'begin-end'\<close>\<close>

datatype TipPosition = TipFalse | TipBegin | TipEnd | TipBeginEnd

record WirePiece =
  direction :: WireDirection
  lerp :: real
  tipPosition :: TipPosition

record WireNode =
  point :: Point2i
  direction :: WireDirection

type_synonym Wire = "WireNode list"

record QueueEntry =
  wire :: Wire
  cursor :: nat

record World =
  dimensions :: Point2i
  wirePieces :: "LatticePoint \<rightharpoonup> WirePiece"
  wiresQueue :: "QueueEntry list"

text \<open>The only exception of the program: \<open>throw 'invalid'\<close>.\<close>

datatype error = Invalid

section \<open>Random source\<close>

text \<open>
  \<open>Math.random()\<close> is a stream of draws, read and advanced by each call. Its contract
  (every draw lies in \<open>[0, 1)\<close>) is the predicate \<open>unitDraws\<close>.
\<close>

type_synonym rng = "real stream"

definition Math_random :: "rng \<Rightarrow> real \<times> rng" where
  "Math_random r = (shd r, stl r)"

definition unitDraws :: "rng \<Rightarrow> bool" where
  "unitDraws r = (\<forall>u\<in>sset r. 0 \<le> u \<and> u < 1)"

text \<open>
  \<open>array[Math.floor(Math.random() * array.length)]\<close>; an index outside the array reads
  \<open>undefined\<close>, modelled as \<open>None\<close>.
\<close>

definition randomChoice :: "'a list \<Rightarrow> rng \<Rightarrow> 'a option \<times> rng" where
  "randomChoice array r =
     (let (u, r') = Math_random r;
          i = \<lfloor>u * real (length array)\<rfloor>
      in (if 0 \<le> i \<and> i < int (length array) then Some (array ! nat i) else None, r'))"

definition chosenDirection :: "string option \<Rightarrow> WireDirection" where
  "chosenDirection c = (case c of None \<Rightarrow> Undefined | Some s \<Rightarrow> Str s)"

definition randomDirection :: "rng \<Rightarrow> WireDirection \<times> rng" where
  "randomDirection r =
     (let (c, r') = randomChoice [''down'', ''down-left'', ''down-right''] r
      in (chosenDirection c, r'))"

section \<open>Successor point and intersection test\<close>

fun nextPoint :: "Point2i \<Rightarrow> WireDirection \<Rightarrow> error + Point2i" where
  "nextPoint (x, y) d =
     (if d = Str ''down'' then Inr (x, y + 1)
      else if d = Str ''down-left'' then Inr (x - 1, y + 1)
      else if d = Str ''down-right'' then Inr (x + 1, y + 1)
      else Inl Invalid)"

text \<open>\<open>!!world.wirePieces[key]\<close>: a stored piece is an object, hence truthy.\<close>

fun checkPoint :: "World \<Rightarrow> Point2i \<Rightarrow> bool" where
  "checkPoint world (x, y) =
     (wirePieces world (toLatticePoint (real_of_int x) (real_of_int y)) \<noteq> None)"

definition nodeIntersects :: "World \<Rightarrow> WireNode \<Rightarrow> bool" where
  "nodeIntersects world node =
     (case point node of (x, y) \<Rightarrow>
        if WireNode.direction node = Str ''down''
        then checkPoint world (x, y) \<or> checkPoint world (x, y + 1)
        else if WireNode.direction node = Str ''down-left''
        then checkPoint world (x, y) \<or> checkPoint world (x - 1, y)
        else if WireNode.direction node = Str ''down-right''
        then checkPoint world (x, y) \<or> checkPoint world (x + 1, y)
        else False)"

definition wireIntersects :: "World \<Rightarrow> Wire \<Rightarrow> bool" where
  "wireIntersects world w = list_ex (nodeIntersects world) w"

section \<open>Wire generator\<close>

definition randomPoint :: "int \<Rightarrow> int \<Rightarrow> rng \<Rightarrow> Point2i \<times> rng" where
  "randomPoint w h r =
     (let (u1, r1) = Math_random r;
          (u2, r2) = Math_random r1
      in ((\<lfloor>u1 * real_of_int w\<rfloor>, \<lfloor>u2 ^ 2 * real_of_int h * 0.5\<rfloor>), r2))"

text \<open>
  The direction change inside the loop body: with probability 0.35 a wire going down
  turns to a random side, and a wire going sideways turns down.
\<close>

definition changeDirection :: "WireDirection \<Rightarrow> rng \<Rightarrow> WireDirection \<times> rng" where
  "changeDirection dir r =
     (let (u, r1) = Math_random r
      in if u < 0.35
         then (if dir = Str ''down''
               then (let (c, r2) = randomChoice [''down-left'', ''down-right''] r1
                     in (chosenDirection c, r2))
               else (Str ''down'', r1))
         else (dir, r1))"

text \<open>
  The \<open>for\<close> loop, by the number of iterations still to run. The loop variables are
  the wire built so far, \<open>prev\<close> and \<open>dir\<close>; an exception of \<open>nextPoint\<close> leaves the loop
  with the random source as it is at that moment.
\<close>

fun extendWire ::
  "nat \<Rightarrow> Wire \<Rightarrow> WireNode \<Rightarrow> WireDirection \<Rightarrow> rng \<Rightarrow> (error + Wire) \<times> rng" where
  "extendWire 0 w prev dir r = (Inr w, r)"
| "extendWire (Suc n) w prev dir r =
     (case nextPoint (point prev) dir of
        Inl e \<Rightarrow> (Inl e, r)
      | Inr p \<Rightarrow>
          (case changeDirection dir r of (dir', r') \<Rightarrow>
             let w' = w @ [\<lparr>point = p, direction = dir'\<rparr>]
             in extendWire n w' (last w') dir' r'))"

definition generateWire :: "World \<Rightarrow> rng \<Rightarrow> (error + Wire) \<times> rng" where
  "generateWire world r =
     (case dimensions world of (w, h) \<Rightarrow>
        let (u, r1) = Math_random r;
            wireLength = 3 + \<lfloor>u * 12\<rfloor>;
            (p, r2) = randomPoint w h r1;
            (d, r3) = randomDirection r2;
            wire0 = [\<lparr>point = p, direction = d\<rparr>];
            prev = hd wire0;
            dir = WireNode.direction prev
        in extendWire (nat wireLength) wire0 prev dir r3)"

section \<open>Notions used to state the properties\<close>

text \<open>
  The Occupancy Store's \<open>isOccupied\<close>, in the words of the specification: a cell is
  occupied when a WirePiece exists at its key.
\<close>

definition occupied :: "World \<Rightarrow> int \<Rightarrow> int \<Rightarrow> bool" where
  "occupied world x y =
     (toLatticePoint (real_of_int x) (real_of_int y) \<in> dom (wirePieces world))"

text \<open>The three values of the type \<open>WireDirection\<close>.\<close>

definition validDirections :: "WireDirection set" where
  "validDirections = {Str ''down'', Str ''down-left'', Str ''down-right''}"

text \<open>
  A step of a wire follows a direction when it adds that direction's fixed offset:
  \<open>(0, 1)\<close> for \<open>down\<close>, \<open>(-1, 1)\<close> for \<open>down-left\<close>, \<open>(1, 1)\<close> for \<open>down-right\<close>.
\<close>

definition followsDirection :: "WireDirection \<Rightarrow> Point2i \<Rightarrow> Point2i \<Rightarrow> bool" where
  "followsDirection d p q =
     (case (p, q) of ((x, y), (x', y')) \<Rightarrow>
        (d = Str ''down'' \<and> x' = x \<and> y' = y + 1)
      \<or> (d = Str ''down-left'' \<and> x' = x - 1 \<and> y' = y + 1)
      \<or> (d = Str ''down-right'' \<and> x' = x + 1 \<and> y' = y + 1))"

definition wireFollowsDirections :: "Wire \<Rightarrow> bool" where
  "wireFollowsDirections w =
     (\<forall>i. Suc i < length w \<longrightarrow>
        followsDirection (WireNode.direction (w ! i)) (point (w ! i)) (point (w ! Suc i)))"

text \<open>A world and a random source to run the definitions on.\<close>

definition exampleWorld :: World where
  "exampleWorld =
     \<lparr>dimensions = (4, 4),
      wirePieces = [''0,0'' \<mapsto> \<lparr>WirePiece.direction = Str ''down'', lerp = 1,
                               tipPosition = TipBegin\<rparr>],
      wiresQueue = []\<rparr>"

definition exampleDraws :: rng where
  "exampleDraws = [0.5, 0.9, 0.5, 0.7] @- sconst 0.2"

definition exampleWire :: Wire where
  "exampleWire =
     [\<lparr>point = (3, 0), direction = Str ''down-right''\<rparr>,
      \<lparr>point = (4, 1), direction = Str ''down''\<rparr>,
      \<lparr>point = (4, 2), direction = Str ''down-left''\<rparr>,
      \<lparr>point = (3, 3), direction = Str ''down''\<rparr>,
      \<lparr>point = (3, 4), direction = Str ''down-left''\<rparr>,
      \<lparr>point = (2, 5), direction = Str ''down''\<rparr>,
      \<lparr>point = (2, 6), direction = Str ''down-left''\<rparr>,
      \<lparr>point = (1, 7), direction = Str ''down''\<rparr>,
      \<lparr>point = (1, 8), direction = Str ''down-left''\<rparr>,
      \<lparr>point = (0, 9), direction = Str ''down''\<rparr>]"

section \<open>Admission and reveal timers\<close>

text \<open>
  The state that \<open>Art.setup\<close> creates and its two interval callbacks share: the fields
  \<open>world\<close> and \<open>dirty\<close> of the \<open>Art\<close> object, the closure variables \<open>failedTries\<close> and
  \<open>pieceLerpBeginTime\<close>, and for each interval whether it is still scheduled
  (\<open>clearInterval\<close> sets it to \<open>False\<close>).
\<close>

record ArtState =
  world :: World
  dirty :: bool
  failedTries :: nat
  pieceLerpBeginTime :: int
  wireGeneratorTimer :: bool
  wireQueueTimer :: bool

text \<open>\<open>new Date().getTime()\<close>: a stream of clock readings in milliseconds.\<close>

type_synonym clock = "int stream"

definition getTime :: "clock \<Rightarrow> int \<times> clock" where
  "getTime c = (shd c, stl c)"

definition WIRE_LERP_SPEED :: real where
  "WIRE_LERP_SPEED = 50"

text \<open>
  What one firing of the admission interval did: it was not scheduled any more
  (\<open>TimerCleared\<close>), it returned at once because the queue was not empty
  (\<open>QueueBusy\<close>), it cleared its own interval (\<open>Stopped\<close>), or it called
  \<open>generateWire\<close> and then enqueued the candidate, discarded it, or was aborted by
  the generator's exception.
\<close>

datatype AdmissionEvent =
  TimerCleared | QueueBusy | Stopped | Enqueued Wire | Discarded Wire | Threw error

definition wireGeneratorTick :: "rng \<Rightarrow> ArtState \<Rightarrow> AdmissionEvent \<times> ArtState \<times> rng" where
  "wireGeneratorTick r st =
     (if \<not> wireGeneratorTimer st then (TimerCleared, st, r)
      else if length (wiresQueue (world st)) > 0 then (QueueBusy, st, r)
      else if failedTries st > 200 then (Stopped, st\<lparr>wireGeneratorTimer := False\<rparr>, r)
      else (case generateWire (world st) r of
              (Inl e, r') \<Rightarrow> (Threw e, st, r')
            | (Inr w, r') \<Rightarrow>
                if \<not> wireIntersects (world st) w
                then (Enqueued w,
                      st\<lparr>failedTries := 0,
                         world := (world st)\<lparr>wiresQueue :=
                           wiresQueue (world st) @ [\<lparr>wire = w, cursor = 0\<rparr>]\<rparr>\<rparr>,
                      r')
                else (Discarded w, st\<lparr>failedTries := failedTries st + 1\<rparr>, r')))"

text \<open>
  One firing of the reveal interval. The piece written while a segment is still growing
  is built by spreading \<open>currentNode\<close>, so the stored object also carries the node's
  \<open>point\<close>; no reader of the store looks at it, and the record leaves it out.
\<close>

definition wireQueueTick :: "clock \<Rightarrow> ArtState \<Rightarrow> ArtState \<times> clock" where
  "wireQueueTick c st =
     (if \<not> wireQueueTimer st then (st, c)
      else (case wiresQueue (world st) of
              [] \<Rightarrow> (st, c)
            | wireInterp # rest \<Rightarrow>
                if cursor wireInterp < length (wire wireInterp)
                then
                  (let currentNode = wire wireInterp ! cursor wireInterp;
                       key = (case point currentNode of (x, y) \<Rightarrow>
                                toLatticePoint (real_of_int x) (real_of_int y));
                       pieceLerpEndTime =
                         real_of_int (pieceLerpBeginTime st) + 1000 / WIRE_LERP_SPEED;
                       (now, c1) = getTime c
                   in if real_of_int now > pieceLerpEndTime
                      then
                        (let wireInterp' = wireInterp\<lparr>cursor := cursor wireInterp + 1\<rparr>;
                             (t, c2) = getTime c1;
                             piece =
                               \<lparr>WirePiece.direction = WireNode.direction currentNode,
                                lerp = 1,
                                tipPosition =
                                  (if cursor wireInterp' = 1 then TipBegin
                                   else if cursor wireInterp' = length (wire wireInterp')
                                   then TipEnd else TipFalse)\<rparr>
                         in (st\<lparr>pieceLerpBeginTime := t,
                                world := (world st)
                                  \<lparr>wiresQueue := wireInterp' # rest,
                                   wirePieces := (wirePieces (world st))(key \<mapsto> piece)\<rparr>,
                                dirty := True\<rparr>,
                             c2))
                      else
                        (let lerp =
                               (real_of_int (now - pieceLerpBeginTime st) / 1000)
                                 * WIRE_LERP_SPEED;
                             piece =
                               \<lparr>WirePiece.direction = WireNode.direction currentNode,
                                lerp = lerp,
                                tipPosition =
                                  (if cursor wireInterp = 0 then TipBeginEnd else TipEnd)\<rparr>
                         in (st\<lparr>world := (world st)
                                  \<lparr>wirePieces := (wirePieces (world st))(key \<mapsto> piece)\<rparr>,
                                dirty := True\<rparr>,
                             c1)))
                else (st\<lparr>world := (world st)\<lparr>wiresQueue := rest\<rparr>\<rparr>, c)))"

text \<open>
  The two intervals fire in some interleaving on the single thread. A schedule is the
  list of firings; running it threads the state, the random source and the clock
  through the callbacks and collects what the admission firings did.
\<close>

datatype Tick = GeneratorTick | QueueTick

fun runTicks ::
  "Tick list \<Rightarrow> ArtState \<Rightarrow> rng \<Rightarrow> clock \<Rightarrow> AdmissionEvent list \<times> ArtState \<times> rng \<times> clock" where
  "runTicks [] st r c = ([], st, r, c)"
| "runTicks (GeneratorTick # ts) st r c =
     (case wireGeneratorTick r st of (e, st', r') \<Rightarrow>
        (case runTicks ts st' r' c of (es, fin) \<Rightarrow> (e # es, fin)))"
| "runTicks (QueueTick # ts) st r c =
     (case wireQueueTick c st of (st', c') \<Rightarrow> runTicks ts st' r c')"

text \<open>The keys of the cells that the nodes of a wire stand on.\<close>

definition nodeKey :: "WireNode \<Rightarrow> LatticePoint" where
  "nodeKey node =
     (case point node of (x, y) \<Rightarrow> toLatticePoint (real_of_int x) (real_of_int y))"

text \<open>
  The time a segment has been growing at a clock reading, and the time a segment takes
  to grow (\<open>1000 / WIRE_LERP_SPEED\<close> milliseconds).
\<close>

definition elapsed :: "ArtState \<Rightarrow> int \<Rightarrow> real" where
  "elapsed st now = real_of_int (now - pieceLerpBeginTime st)"

definition segmentDuration :: real where
  "segmentDuration = 1000 / WIRE_LERP_SPEED"

text \<open>A state in which the example wire is queued and about to be revealed.\<close>

definition exampleArt :: ArtState where
  "exampleArt =
     \<lparr>world = exampleWorld\<lparr>wiresQueue := [\<lparr>wire = exampleWire, cursor = 0\<rparr>]\<rparr>,
      dirty = False,
      failedTries = 0,
      pieceLerpBeginTime = 1000,
      wireGeneratorTimer = True,
      wireQueueTimer = True\<rparr>"

text \<open>
  The first of the queued wires is still being revealed: compared with the state \<open>st\<close>
  in which \<open>e1\<close> was at the head of the queue, followed by \<open>others\<close>, the queue of \<open>st'\<close>
  differs at most in the cursor of \<open>e1\<close>, which has not gone back, and the store
  differs at most at keys of nodes of \<open>e1\<close>'s wire.
\<close>

definition headGrowing :: "ArtState \<Rightarrow> QueueEntry \<Rightarrow> QueueEntry list \<Rightarrow> ArtState \<Rightarrow> bool" where
  "headGrowing st e1 others st' =
     ((\<exists>k. wiresQueue (world st') = e1\<lparr>cursor := k\<rparr> # others \<and> cursor e1 \<le> k)
      \<and> (\<forall>key. wirePieces (world st') key \<noteq> wirePieces (world st) key
            \<longrightarrow> key \<in> nodeKey ` set (wire e1)))"

text \<open>
  The first of the queued wires is removed by firing number \<open>n\<close> of the schedule: up
  to that firing it was still being revealed, its cursor has reached the length of its
  wire, and the firing is one of the reveal interval that takes the entry off the head
  of the queue and writes nothing.
\<close>

definition headDrainedAt ::
  "ArtState \<Rightarrow> rng \<Rightarrow> clock \<Rightarrow> Tick list \<Rightarrow> QueueEntry \<Rightarrow> QueueEntry list \<Rightarrow> nat \<Rightarrow> bool" where
  "headDrainedAt st r c ts e1 others n =
     (n < length ts
      \<and> (case runTicks (take n ts) st r c of (es1, st1, r1, c1) \<Rightarrow>
            headGrowing st e1 others st1
            \<and> ts ! n = QueueTick
            \<and> (\<exists>k\<ge>length (wire e1). wiresQueue (world st1) = e1\<lparr>cursor := k\<rparr> # others)
            \<and> wiresQueue (world (fst (wireQueueTick c1 st1))) = others
            \<and> wirePieces (world (fst (wireQueueTick c1 st1))) = wirePieces (world st1)))"

text \<open>A state with two queued wires, the first with its last node left to reveal.\<close>

definition exampleQueued :: ArtState where
  "exampleQueued =
     exampleArt\<lparr>world := exampleWorld
       \<lparr>wiresQueue := [\<lparr>wire = exampleWire, cursor = 9\<rparr>,
                       \<lparr>wire = [\<lparr>point = (7, 1), direction = Str ''down''\<rparr>], cursor = 0\<rparr>]\<rparr>\<rparr>"

definition exampleClock :: clock where
  "exampleClock = [1021, 1030] @- sconst 1040"

text \<open>
  A state with an empty queue and a fresh failure counter, and the wire that the
  generator produces in the example world when every draw is 0.
\<close>

definition exampleIdle :: ArtState where
  "exampleIdle = exampleArt\<lparr>world := exampleWorld\<rparr>"

definition exampleZeroDraws :: rng where
  "exampleZeroDraws = sconst 0"

definition exampleZeroWire :: Wire where
  "exampleZeroWire =
     [\<lparr>point = (0, 0), direction = Str ''down''\<rparr>,
      \<lparr>point = (0, 1), direction = Str ''down-left''\<rparr>,
      \<lparr>point = (- 1, 2), direction = Str ''down''\<rparr>,
      \<lparr>point = (- 1, 3), direction = Str ''down-left''\<rparr>]"

section \<open>The codec round-trips\<close>

text \<open>The digits written for a number are decimal digits, and reading them back gives the number.\<close>

lemma digitsOf_nonempty: "digitsOf n \<noteq> []"
  by (subst digitsOf.simps) simp

lemma digitsOf_set: "c \<in> set (digitsOf n) \<Longrightarrow> 48 \<le> (of_char c :: nat) \<and> (of_char c :: nat) \<le> 57"
proof (induction n rule: digitsOf.induct)
  case (1 n)
  show ?case
  proof (cases "n < 10")
    case True
    with "1.prems" show ?thesis
      by (subst (asm) digitsOf.simps) simp
  next
    case False
    have "n mod 10 < 10" by simp
    with False "1.prems" "1.IH" show ?thesis
      by (subst (asm) digitsOf.simps) auto
  qed
qed

lemma radixDigit_char: "d < 10 \<Longrightarrow> radixDigit 10 (char_of (48 + d)) = Some d"
  by (simp add: radixDigit_def)

lemma radixDigit_digit:
  "48 \<le> (of_char c :: nat) \<Longrightarrow> (of_char c :: nat) \<le> 57 \<Longrightarrow> radixDigit 10 c \<noteq> None"
  by (auto simp add: radixDigit_def Let_def)

lemma digitsValue_snoc:
  "digitsValue r (z @ [c]) =
     (case radixDigit r c of None \<Rightarrow> digitsValue r z | Some d \<Rightarrow> digitsValue r z * r + d)"
  by (simp add: digitsValue_def split: option.split)

lemma digitsValue_digitsOf: "digitsValue 10 (digitsOf n) = n"
proof (induction n rule: digitsOf.induct)
  case (1 n)
  show ?case
  proof (cases "n < 10")
    case True
    then show ?thesis
      by (subst digitsOf.simps) (simp add: digitsValue_def radixDigit_char)
  next
    case False
    have "n mod 10 < 10" by simp
    with False "1.IH" show ?thesis
      by (subst digitsOf.simps) (simp add: digitsValue_snoc radixDigit_char)
  qed
qed

lemma takeWhile_digitsOf:
  "takeWhile (\<lambda>c. radixDigit 10 c \<noteq> None) (digitsOf n) = digitsOf n"
  using digitsOf_set radixDigit_digit by (simp add: takeWhile_eq_all_conv)

lemma digitsOf_hd:
  "digitsOf n = c # cs \<Longrightarrow> 48 \<le> (of_char c :: nat) \<and> (of_char c :: nat) \<le> 57"
  using digitsOf_set [of c n] by simp

lemma digitsOf_snd:
  "digitsOf n = a # b # cs \<Longrightarrow> 48 \<le> (of_char b :: nat) \<and> (of_char b :: nat) \<le> 57"
  using digitsOf_set [of b n] by simp

lemma digit_not_special:
  assumes "48 \<le> (of_char c :: nat)" "(of_char c :: nat) \<le> 57"
  shows "\<not> isWhiteSpace c" "c \<noteq> CHR ''-''" "c \<noteq> CHR ''+''" "c \<noteq> CHR ''x''" "c \<noteq> CHR ''X''"
    "c \<noteq> CHR '',''"
  using assms by (auto simp: isWhiteSpace_def)

lemma parseInt_unsigned:
  assumes "s \<noteq> []" "\<forall>c\<in>set s. 48 \<le> (of_char c :: nat) \<and> (of_char c :: nat) \<le> 57"
  shows "parseInt s = Some (int (digitsValue 10 s))"
proof -
  obtain c cs where s: "s = c # cs" using assms(1) by (cases s) auto
  have c: "\<not> isWhiteSpace c" "c \<noteq> CHR ''-''" "c \<noteq> CHR ''+''"
    using digit_not_special [of c] assms(2) s by auto
  have ws: "dropWhile isWhiteSpace s = s" using s c by simp
  have sg: "(case s of [] \<Rightarrow> (1 :: int, s)
             | c # cs \<Rightarrow> if c = CHR ''-'' then (- 1, cs)
                         else if c = CHR ''+'' then (1, cs) else (1, s)) = (1, s)"
    using s c by simp
  have hex: "(case s of a # b # cs \<Rightarrow>
                 if a = CHR ''0'' \<and> (b = CHR ''x'' \<or> b = CHR ''X'')
                 then (16 :: nat, cs) else (10, s)
               | _ \<Rightarrow> (10, s)) = (10, s)"
    using digit_not_special(4,5) assms(2) by (auto split: list.split)
  have tw: "takeWhile (\<lambda>c. radixDigit 10 c \<noteq> None) s = s"
    using assms(2) radixDigit_digit by (simp add: takeWhile_eq_all_conv)
  show ?thesis
    unfolding parseInt_def Let_def ws sg prod.case hex tw using assms(1) by simp
qed

lemma parseInt_negative:
  assumes "s \<noteq> []" "\<forall>c\<in>set s. 48 \<le> (of_char c :: nat) \<and> (of_char c :: nat) \<le> 57"
  shows "parseInt (CHR ''-'' # s) = Some (- int (digitsValue 10 s))"
proof -
  have ws: "dropWhile isWhiteSpace (CHR ''-'' # s) = CHR ''-'' # s"
    by (simp add: isWhiteSpace_def)
  have sg: "(case CHR ''-'' # s of [] \<Rightarrow> (1 :: int, CHR ''-'' # s)
             | c # cs \<Rightarrow> if c = CHR ''-'' then (- 1, cs)
                         else if c = CHR ''+'' then (1, cs) else (1, CHR ''-'' # s)) = (- 1, s)"
    by simp
  have hex: "(case s of a # b # cs \<Rightarrow>
                 if a = CHR ''0'' \<and> (b = CHR ''x'' \<or> b = CHR ''X'')
                 then (16 :: nat, cs) else (10, s)
               | _ \<Rightarrow> (10, s)) = (10, s)"
    using digit_not_special(4,5) assms(2) by (auto split: list.split)
  have tw: "takeWhile (\<lambda>c. radixDigit 10 c \<noteq> None) s = s"
    using assms(2) radixDigit_digit by (simp add: takeWhile_eq_all_conv)
  show ?thesis
    unfolding parseInt_def Let_def ws sg prod.case hex tw using assms(1) by simp
qed

lemma parseInt_numberToString: "parseInt (numberToString i) = Some i"
proof (cases "i < 0")
  case True
  then show ?thesis
    using parseInt_negative [of "digitsOf (nat (- i))"] digitsOf_set digitsOf_nonempty
    by (simp add: numberToString_def digitsValue_digitsOf)
next
  case False
  then show ?thesis
    using parseInt_unsigned [of "digitsOf (nat i)"] digitsOf_set digitsOf_nonempty
    by (simp add: numberToString_def digitsValue_digitsOf)
qed

lemma comma_notin_numberToString: "CHR '','' \<notin> set (numberToString i)"
  using digitsOf_set digit_not_special(6) by (auto simp: numberToString_def)

lemma splitOn_nosep: "sep \<notin> set a \<Longrightarrow> splitOn sep a = [a]"
  by (induction a) auto

lemma splitOn_append: "sep \<notin> set a \<Longrightarrow> splitOn sep (a @ sep # b) = a # splitOn sep b"
  by (induction a) auto

text \<open>On an integer inside the signed 32-bit range, \<open>| 0\<close> changes nothing.\<close>

lemma toInt32_of_int:
  assumes "- 2147483648 \<le> x" "x < 2147483648"
  shows "toInt32 (real_of_int x) = x"
proof -
  have "x mod 4294967296 = (if x < 0 then x + 4294967296 else x)"
    using assms mod_pos_pos_trivial [of x 4294967296]
      mod_pos_pos_trivial [of "x + 4294967296" 4294967296]
    by (simp split: if_splits)
  then show ?thesis
    using assms by (simp add: toInt32_def Let_def)
qed

text \<open>
  Claim C2. For all integers \<open>x\<close> and \<open>y\<close> representable as 32-bit signed integers,
  decoding the key that \<open>toLatticePoint\<close> builds gives back \<open>(x, y)\<close>: both fields parse,
  and to the numbers that were encoded.
\<close>

theorem codec_roundtrip:
  assumes "- 2147483648 \<le> x" "x < 2147483648" "- 2147483648 \<le> y" "y < 2147483648"
  shows "fromLatticePoint (toLatticePoint (real_of_int x) (real_of_int y)) = (Some x, Some y)"
  using assms
  by (simp add: fromLatticePoint_def toLatticePoint_def toInt32_of_int splitOn_append
      splitOn_nosep comma_notin_numberToString parseInt_numberToString)

theorem codec_roundtrip_witness:
  "- 2147483648 \<le> (- 15 :: int) \<and> (- 15 :: int) < 2147483648
   \<and> - 2147483648 \<le> (7 :: int) \<and> (7 :: int) < 2147483648
   \<and> toLatticePoint (real_of_int (- 15)) (real_of_int 7) = ''-15,7''
   \<and> fromLatticePoint (toLatticePoint (real_of_int (- 15)) (real_of_int 7)) = (Some (- 15), Some 7)"
proof -
  have k: "toLatticePoint (real_of_int (- 15)) (real_of_int 7) = ''-15,7''"
    by code_simp
  show ?thesis
    using codec_roundtrip [of "- 15" 7] k by simp
qed

section \<open>Intersection test and successor point\<close>

lemma checkPoint_occupied: "checkPoint wd (x, y) = occupied wd x y"
  by (auto simp: occupied_def)

lemma nodeIntersects_rule:
  "nodeIntersects wd node =
     (case point node of (x, y) \<Rightarrow>
        (WireNode.direction node = Str ''down''
           \<and> (occupied wd x y \<or> occupied wd x (y + 1)))
      \<or> (WireNode.direction node = Str ''down-left''
           \<and> (occupied wd x y \<or> occupied wd (x - 1) y))
      \<or> (WireNode.direction node = Str ''down-right''
           \<and> (occupied wd x y \<or> occupied wd (x + 1) y)))"
  by (cases "point node") (simp add: nodeIntersects_def checkPoint_occupied del: checkPoint.simps)

lemma key_0_0: "toLatticePoint 0 0 = ''0,0''"
  by code_simp

lemma key_0_1: "toLatticePoint 0 1 = ''0,1''"
  by code_simp

lemma key_1_1: "toLatticePoint 1 1 = ''1,1''"
  by code_simp

lemma key_1_2: "toLatticePoint 1 2 = ''1,2''"
  by code_simp

text \<open>
  Claim C1. \<open>wireIntersects\<close> rejects a wire exactly when one of its nodes triggers the
  rule of its direction: for \<open>down\<close> the cell \<open>(x, y)\<close> or \<open>(x, y + 1)\<close> is occupied, for
  \<open>down-left\<close> the cell \<open>(x, y)\<close> or \<open>(x - 1, y)\<close>, for \<open>down-right\<close> the cell \<open>(x, y)\<close> or
  \<open>(x + 1, y)\<close>. When the only occupied cell is \<open>(0, 0)\<close>, the one-node wire at \<open>(0, 0)\<close>
  going down is rejected and the one at \<open>(1, 1)\<close> going down is accepted.
\<close>

theorem wireIntersects_iff_rule:
  "(wireIntersects wd w \<longleftrightarrow>
      (\<exists>node\<in>set w. case point node of (x, y) \<Rightarrow>
          (WireNode.direction node = Str ''down''
             \<and> (occupied wd x y \<or> occupied wd x (y + 1)))
        \<or> (WireNode.direction node = Str ''down-left''
             \<and> (occupied wd x y \<or> occupied wd (x - 1) y))
        \<or> (WireNode.direction node = Str ''down-right''
             \<and> (occupied wd x y \<or> occupied wd (x + 1) y))))
   \<and> (dom (wirePieces wd) = {toLatticePoint 0 0} \<longrightarrow>
        wireIntersects wd [\<lparr>point = (0, 0), direction = Str ''down''\<rparr>]
        \<and> \<not> wireIntersects wd [\<lparr>point = (1, 1), direction = Str ''down''\<rparr>])"
proof (intro conjI impI)
  show "wireIntersects wd w \<longleftrightarrow>
      (\<exists>node\<in>set w. case point node of (x, y) \<Rightarrow>
          (WireNode.direction node = Str ''down''
             \<and> (occupied wd x y \<or> occupied wd x (y + 1)))
        \<or> (WireNode.direction node = Str ''down-left''
             \<and> (occupied wd x y \<or> occupied wd (x - 1) y))
        \<or> (WireNode.direction node = Str ''down-right''
             \<and> (occupied wd x y \<or> occupied wd (x + 1) y)))"
    unfolding wireIntersects_def list_ex_iff nodeIntersects_rule ..
next
  assume d: "dom (wirePieces wd) = {toLatticePoint 0 0}"
  then have "occupied wd 0 0"
    by (simp add: occupied_def)
  then show "wireIntersects wd [\<lparr>point = (0, 0), direction = Str ''down''\<rparr>]"
    by (simp add: wireIntersects_def nodeIntersects_rule)
next
  assume d: "dom (wirePieces wd) = {toLatticePoint 0 0}"
  then have "\<not> occupied wd 1 1" "\<not> occupied wd 1 2"
    by (simp_all add: occupied_def key_0_0 key_1_1 key_1_2)
  then show "\<not> wireIntersects wd [\<lparr>point = (1, 1), direction = Str ''down''\<rparr>]"
    by (simp add: wireIntersects_def nodeIntersects_rule)
qed

theorem wireIntersects_iff_rule_witness:
  "dom (wirePieces exampleWorld) = {toLatticePoint 0 0}
   \<and> wireIntersects exampleWorld [\<lparr>point = (0, 0), direction = Str ''down''\<rparr>]
   \<and> \<not> wireIntersects exampleWorld [\<lparr>point = (1, 1), direction = Str ''down''\<rparr>]"
  using wireIntersects_iff_rule [of exampleWorld "[]"]
  by (simp add: key_0_0 exampleWorld_def)

text \<open>
  Claim C9. For a direction outside the three valid ones, \<open>nextPoint\<close> throws instead of
  returning a point, at every point; for each of the three valid directions it returns
  a point.
\<close>

theorem nextPoint_throws_iff_invalid:
  "(d \<notin> validDirections \<longrightarrow> nextPoint p d = Inl Invalid)
   \<and> (d \<in> validDirections \<longrightarrow> (\<exists>q. nextPoint p d = Inr q))"
  by (cases p) (auto simp: validDirections_def)

theorem nextPoint_throws_iff_invalid_witness:
  "Str ''up'' \<notin> validDirections \<and> nextPoint (3, 4) (Str ''up'') = Inl Invalid
   \<and> Undefined \<notin> validDirections \<and> nextPoint (3, 4) Undefined = Inl Invalid
   \<and> Str ''down-left'' \<in> validDirections \<and> nextPoint (3, 4) (Str ''down-left'') = Inr (2, 5)"
  using nextPoint_throws_iff_invalid [of "Str ''up''" "(3, 4)"]
    nextPoint_throws_iff_invalid [of Undefined "(3, 4)"]
    nextPoint_throws_iff_invalid [of "Str ''down-left''" "(3, 4)"]
  by (simp add: validDirections_def)

text \<open>
  Claim C10. \<open>wireIntersects\<close> returns a truth value for every wire, whatever the
  directions stored in it (it has no failing branch), and a node whose direction is
  none of the three valid ones counts as not intersecting: alone it is accepted, and
  taking it out of a wire does not change the answer. The successor computation throws
  on the same node.
\<close>

theorem wireIntersects_ignores_invalid:
  assumes "WireNode.direction node \<notin> validDirections"
  shows "\<not> wireIntersects wd [node]
    \<and> wireIntersects wd (xs @ node # ys) = wireIntersects wd (xs @ ys)
    \<and> nextPoint (point node) (WireNode.direction node) = Inl Invalid"
proof -
  have "\<not> nodeIntersects wd node"
    using assms by (cases "point node") (auto simp: nodeIntersects_def validDirections_def)
  moreover have "nextPoint (point node) (WireNode.direction node) = Inl Invalid"
    using assms by (cases "point node") (auto simp: validDirections_def)
  ultimately show ?thesis
    by (simp add: wireIntersects_def list_ex_iff)
qed

theorem wireIntersects_ignores_invalid_witness:
  "WireNode.direction \<lparr>point = (0, 0), direction = Str ''up''\<rparr> \<notin> validDirections
   \<and> \<not> wireIntersects exampleWorld [\<lparr>point = (0, 0), direction = Str ''up''\<rparr>]
   \<and> wireIntersects exampleWorld
        [\<lparr>point = (0, 0), direction = Str ''down''\<rparr>, \<lparr>point = (0, 0), direction = Str ''up''\<rparr>]
      = wireIntersects exampleWorld [\<lparr>point = (0, 0), direction = Str ''down''\<rparr>]
   \<and> nextPoint (0, 0) (Str ''up'') = Inl Invalid"
  using wireIntersects_ignores_invalid [of "\<lparr>point = (0, 0), direction = Str ''up''\<rparr>"
      exampleWorld "[\<lparr>point = (0, 0), direction = Str ''down''\<rparr>]" "[]"]
  by (simp add: validDirections_def)

section \<open>The wire generator\<close>

lemma unitDraws_shd: "unitDraws r \<Longrightarrow> 0 \<le> shd r \<and> shd r < 1"
  by (simp add: unitDraws_def shd_sset)

lemma unitDraws_stl: "unitDraws r \<Longrightarrow> unitDraws (stl r)"
  by (auto simp: unitDraws_def dest: stl_sset)

lemma floor_draw_range:
  assumes "0 \<le> u" "u < 1" "0 < n"
  shows "0 \<le> \<lfloor>u * real n\<rfloor> \<and> \<lfloor>u * real n\<rfloor> < int n"
proof -
  have "0 \<le> u * real n" using assms by simp
  moreover have "u * real n < real n" using assms by simp
  ultimately show ?thesis by (simp add: floor_less_iff)
qed

lemma randomChoice_in_array:
  assumes "unitDraws r" "array \<noteq> []"
  shows "\<exists>x\<in>set array. randomChoice array r = (Some x, stl r)"
proof -
  define i where "i = \<lfloor>shd r * real (length array)\<rfloor>"
  have i: "0 \<le> i \<and> i < int (length array)"
    using assms unitDraws_shd [of r] floor_draw_range [of "shd r" "length array"]
    by (simp add: i_def)
  then have "nat i < length array" by linarith
  then have "array ! nat i \<in> set array" by (rule nth_mem)
  then show ?thesis
    using i by (simp add: randomChoice_def Math_random_def i_def)
qed

lemma randomDirection_valid:
  assumes "unitDraws r"
  shows "\<exists>d\<in>validDirections. randomDirection r = (d, stl r)"
  using randomChoice_in_array [OF assms, of "[''down'', ''down-left'', ''down-right'']"]
  by (auto simp: randomDirection_def chosenDirection_def validDirections_def)

lemma changeDirection_valid:
  assumes "unitDraws r" "dir \<in> validDirections"
  shows "\<exists>d r'. changeDirection dir r = (d, r') \<and> d \<in> validDirections \<and> unitDraws r'"
proof -
  have r1: "unitDraws (stl r)" using assms(1) by (rule unitDraws_stl)
  have r2: "unitDraws (stl (stl r))" using r1 by (rule unitDraws_stl)
  obtain x where "x \<in> set [''down-left'', ''down-right'']"
    "randomChoice [''down-left'', ''down-right''] (stl r) = (Some x, stl (stl r))"
    using randomChoice_in_array [OF r1, of "[''down-left'', ''down-right'']"] by auto
  then show ?thesis
    using assms(2) r1 r2
    by (auto simp: changeDirection_def Math_random_def chosenDirection_def validDirections_def)
qed

lemma wireFollowsDirections_snoc:
  assumes "wireFollowsDirections w" "w \<noteq> []"
    "followsDirection (WireNode.direction (last w)) (point (last w)) (point node)"
  shows "wireFollowsDirections (w @ [node])"
  unfolding wireFollowsDirections_def
proof (intro allI impI)
  fix i assume i: "Suc i < length (w @ [node])"
  show "followsDirection (WireNode.direction ((w @ [node]) ! i)) (point ((w @ [node]) ! i))
          (point ((w @ [node]) ! Suc i))"
  proof (cases "Suc i < length w")
    case True
    then show ?thesis using assms(1) by (simp add: wireFollowsDirections_def nth_append)
  next
    case False
    then have "Suc i = length w" using i by simp
    then have i': "i = length w - 1" "i < length w" by simp_all
    have "(w @ [node]) ! i = last w" "(w @ [node]) ! Suc i = node"
      using assms(2) i' \<open>Suc i = length w\<close> by (simp_all add: nth_append last_conv_nth)
    then show ?thesis using assms(3) by simp
  qed
qed

lemma nextPoint_follows:
  "nextPoint p d = Inr q \<Longrightarrow> followsDirection d p q"
  by (cases p; cases q) (auto simp: followsDirection_def split: if_splits)

lemma nextPoint_valid:
  "d \<in> validDirections \<Longrightarrow> \<exists>q. nextPoint p d = Inr q"
  by (cases p) (auto simp: validDirections_def)

lemma extendWire_total:
  assumes "unitDraws r" "dir \<in> validDirections" "w \<noteq> []" "prev = last w"
    "dir = WireNode.direction prev" "wireFollowsDirections w"
  shows "\<exists>w' r'. extendWire n w prev dir r = (Inr w', r')
           \<and> length w' = length w + n \<and> wireFollowsDirections w' \<and> unitDraws r'"
  using assms
proof (induction n arbitrary: w prev dir r)
  case 0
  then show ?case by simp
next
  case (Suc n)
  obtain p where p: "nextPoint (point prev) dir = Inr p"
    using nextPoint_valid [OF Suc.prems(2)] by blast
  obtain d r1 where d: "changeDirection dir r = (d, r1)" "d \<in> validDirections" "unitDraws r1"
    using changeDirection_valid [OF Suc.prems(1,2)] by blast
  let ?node = "\<lparr>point = p, direction = d\<rparr>"
  let ?w = "w @ [?node]"
  have "followsDirection (WireNode.direction (last w)) (point (last w)) (point ?node)"
    using nextPoint_follows [OF p] Suc.prems(4,5) by simp
  then have c: "wireFollowsDirections ?w"
    using wireFollowsDirections_snoc Suc.prems(3,6) by blast
  have "\<exists>w' r'. extendWire n ?w (last ?w) d r1 = (Inr w', r')
           \<and> length w' = length ?w + n \<and> wireFollowsDirections w' \<and> unitDraws r'"
    by (rule Suc.IH) (use d c in simp_all)
  then show ?case
    using p d(1) by (simp add: Let_def)
qed

lemma generateWire_total:
  assumes "unitDraws r"
  shows "\<exists>w r'. generateWire wd r = (Inr w, r')
           \<and> length w = 1 + nat (3 + \<lfloor>shd r * 12\<rfloor>) \<and> wireFollowsDirections w \<and> unitDraws r'"
proof -
  obtain a b where dims: "dimensions wd = (a, b)" by (cases "dimensions wd")
  let ?r3 = "stl (stl (stl r))"
  have r3: "unitDraws ?r3" using assms by (intro unitDraws_stl)
  obtain d where d: "d \<in> validDirections" "randomDirection ?r3 = (d, stl ?r3)"
    using randomDirection_valid [OF r3] by blast
  let ?p = "(\<lfloor>shd (stl r) * real_of_int a\<rfloor>, \<lfloor>(shd (stl (stl r)))\<^sup>2 * real_of_int b * 0.5\<rfloor>)"
  let ?w0 = "[\<lparr>point = ?p, direction = d\<rparr>]"
  have c0: "wireFollowsDirections ?w0" by (simp add: wireFollowsDirections_def)
  have "\<exists>w' r'. extendWire (nat (3 + \<lfloor>shd r * 12\<rfloor>)) ?w0 (hd ?w0) d (stl ?r3) = (Inr w', r')
           \<and> length w' = length ?w0 + nat (3 + \<lfloor>shd r * 12\<rfloor>) \<and> wireFollowsDirections w' \<and> unitDraws r'"
    by (rule extendWire_total) (use d r3 c0 unitDraws_stl in simp_all)
  then show ?thesis
    using dims d(2) by (simp add: generateWire_def Math_random_def randomPoint_def Let_def)
qed

text \<open>The example source keeps the contract, and the wire it generates in the example world.\<close>

lemma unitDraws_exampleDraws: "unitDraws exampleDraws"
  by (simp add: unitDraws_def exampleDraws_def)

lemma generateWire_example:
  "generateWire exampleWorld exampleDraws = (Inr exampleWire, sconst (1 / 5))"
  by (simp add: generateWire_def exampleWorld_def exampleDraws_def exampleWire_def Math_random_def
      randomPoint_def randomDirection_def randomChoice_def chosenDirection_def
      changeDirection_def Let_def numeral_eq_Suc)

text \<open>
  Claim C4. Whatever the dimensions of the world and whatever the random source draws
  (each draw in \<open>[0, 1)\<close>), \<open>generateWire\<close> returns a wire, and the wire has the first
  node plus \<open>3 + \<lfloor>U * 12\<rfloor>\<close> further nodes, \<open>U\<close> being the first draw: between 4 and 15
  nodes.
\<close>

theorem generateWire_length:
  assumes "unitDraws r"
  shows "\<exists>w r'. generateWire wd r = (Inr w, r')
           \<and> length w = 1 + nat (3 + \<lfloor>shd r * 12\<rfloor>)
           \<and> 4 \<le> length w \<and> length w \<le> 15"
proof -
  obtain w r' where w: "generateWire wd r = (Inr w, r')"
    "length w = 1 + nat (3 + \<lfloor>shd r * 12\<rfloor>)"
    using generateWire_total [OF assms, of wd] by blast
  have "0 \<le> \<lfloor>shd r * 12\<rfloor> \<and> \<lfloor>shd r * 12\<rfloor> < 12"
    using unitDraws_shd [OF assms] floor_draw_range [of "shd r" 12] by simp
  then have "4 \<le> length w \<and> length w \<le> 15"
    using w(2) by linarith
  then show ?thesis
    using w by blast
qed

theorem generateWire_length_witness:
  "unitDraws exampleDraws
   \<and> (\<exists>w r'. generateWire exampleWorld exampleDraws = (Inr w, r') \<and> length w = 10)"
  using generateWire_length [OF unitDraws_exampleDraws, of exampleWorld]
    unitDraws_exampleDraws
  by (simp add: generateWire_example exampleWire_def)

text \<open>
  Claim C5. In the wire that \<open>generateWire\<close> returns, every node that has a successor
  is followed by the point that its own stored direction leads to: the successor's
  point is the node's point plus \<open>(0, 1)\<close> for \<open>down\<close>, plus \<open>(-1, 1)\<close> for \<open>down-left\<close>,
  plus \<open>(1, 1)\<close> for \<open>down-right\<close>.
\<close>

theorem generateWire_steps:
  assumes "unitDraws r"
  shows "\<exists>w r'. generateWire wd r = (Inr w, r')
           \<and> (\<forall>i. Suc i < length w \<longrightarrow>
                 followsDirection (WireNode.direction (w ! i)) (point (w ! i))
                   (point (w ! Suc i)))"
  using generateWire_total [OF assms, of wd]
  unfolding wireFollowsDirections_def by blast

theorem generateWire_steps_witness:
  "unitDraws exampleDraws
   \<and> (\<exists>w r'. generateWire exampleWorld exampleDraws = (Inr w, r')
         \<and> Suc 1 < length w
         \<and> WireNode.direction (w ! 1) = Str ''down''
         \<and> point (w ! 1) = (4, 1) \<and> point (w ! Suc 1) = (4, 2)
         \<and> followsDirection (WireNode.direction (w ! 1)) (point (w ! 1)) (point (w ! Suc 1)))"
  using generateWire_steps [OF unitDraws_exampleDraws, of exampleWorld]
    unitDraws_exampleDraws
  by (simp add: generateWire_example exampleWire_def followsDirection_def)

section \<open>One firing of the reveal interval\<close>

lemma wireQueueTick_idle:
  "wiresQueue (world st) = [] \<Longrightarrow> wireQueueTick c st = (st, c)"
  by (simp add: wireQueueTick_def)

lemma wireQueueTick_cleared:
  "\<not> wireQueueTimer st \<Longrightarrow> wireQueueTick c st = (st, c)"
  by (simp add: wireQueueTick_def)

lemma wireQueueTick_drained:
  assumes "wireQueueTimer st" "wiresQueue (world st) = e # rest"
    "\<not> cursor e < length (wire e)"
  shows "wireQueueTick c st = (st\<lparr>world := (world st)\<lparr>wiresQueue := rest\<rparr>\<rparr>, c)"
  using assms by (simp add: wireQueueTick_def)

lemma wireQueueTick_finalize:
  assumes "wireQueueTimer st" "wiresQueue (world st) = e # rest"
    "cursor e < length (wire e)" "segmentDuration < elapsed st (shd c)"
  shows "wireQueueTick c st =
    (st\<lparr>pieceLerpBeginTime := shd (stl c),
        world := (world st)
          \<lparr>wiresQueue := e\<lparr>cursor := Suc (cursor e)\<rparr> # rest,
           wirePieces := (wirePieces (world st))(nodeKey (wire e ! cursor e) \<mapsto>
             \<lparr>WirePiece.direction = WireNode.direction (wire e ! cursor e),
              lerp = 1,
              tipPosition = (if cursor e = 0 then TipBegin
                             else if Suc (cursor e) = length (wire e) then TipEnd
                             else TipFalse)\<rparr>)\<rparr>,
        dirty := True\<rparr>,
     stl (stl c))"
proof -
  have "real_of_int (pieceLerpBeginTime st) + 1000 / WIRE_LERP_SPEED < real_of_int (shd c)"
    using assms(4) by (simp add: elapsed_def segmentDuration_def)
  then show ?thesis
    using assms(1-3) by (simp add: wireQueueTick_def getTime_def nodeKey_def Let_def)
qed

lemma wireQueueTick_progress:
  assumes "wireQueueTimer st" "wiresQueue (world st) = e # rest"
    "cursor e < length (wire e)" "\<not> segmentDuration < elapsed st (shd c)"
  shows "wireQueueTick c st =
    (st\<lparr>world := (world st)
          \<lparr>wirePieces := (wirePieces (world st))(nodeKey (wire e ! cursor e) \<mapsto>
             \<lparr>WirePiece.direction = WireNode.direction (wire e ! cursor e),
              lerp = elapsed st (shd c) / 1000 * WIRE_LERP_SPEED,
              tipPosition = (if cursor e = 0 then TipBeginEnd else TipEnd)\<rparr>)\<rparr>,
        dirty := True\<rparr>,
     stl c)"
proof -
  have "\<not> real_of_int (pieceLerpBeginTime st) + 1000 / WIRE_LERP_SPEED < real_of_int (shd c)"
    using assms(4) by (simp add: elapsed_def segmentDuration_def)
  then show ?thesis
    using assms(1-3)
    by (simp add: wireQueueTick_def getTime_def nodeKey_def Let_def elapsed_def)
qed


lemma key_3_0: "toLatticePoint 3 0 = ''3,0''"
  by code_simp

lemma key_3_4: "toLatticePoint 3 4 = ''3,4''"
  by code_simp

lemma key_0_9: "toLatticePoint 0 9 = ''0,9''"
  by code_simp

lemma exampleArt_queue:
  "wireQueueTimer (exampleArt\<lparr>world := (world exampleArt)\<lparr>wiresQueue := q\<rparr>\<rparr>)"
  "wiresQueue (world (exampleArt\<lparr>world := (world exampleArt)\<lparr>wiresQueue := q\<rparr>\<rparr>)) = q"
  "pieceLerpBeginTime (exampleArt\<lparr>world := (world exampleArt)\<lparr>wiresQueue := q\<rparr>\<rparr>) = 1000"
  "wirePieces (world (exampleArt\<lparr>world := (world exampleArt)\<lparr>wiresQueue := q\<rparr>\<rparr>))
     = wirePieces exampleWorld"
  by (simp_all add: exampleArt_def)

lemma exampleWire_nodes:
  "length exampleWire = 10"
  "exampleWire ! 0 = \<lparr>point = (3, 0), direction = Str ''down-right''\<rparr>"
  "exampleWire ! 4 = \<lparr>point = (3, 4), direction = Str ''down-left''\<rparr>"
  "exampleWire ! 9 = \<lparr>point = (0, 9), direction = Str ''down''\<rparr>"
  by (simp_all add: exampleWire_def)

text \<open>
  Claim C6. When the reveal interval fires with the head wire still growing and the
  time since the segment began exceeds the time a segment takes, the piece written
  for the current node has \<open>lerp = 1\<close>; its tip is \<open>'begin'\<close> when the cursor advances
  to 1, \<open>'end'\<close> when the cursor advances to the length of a wire longer than one node,
  and \<open>false\<close> for a node in between; the cursor advances by one. When the time is not
  exceeded and the cursor is 0, the piece written has the tip \<open>'begin-end'\<close>.
\<close>

theorem wireQueueTick_tips:
  assumes "wireQueueTimer st" "wiresQueue (world st) = e # rest"
    "cursor e < length (wire e)"
  shows
    "(segmentDuration < elapsed st (shd c) \<longrightarrow>
        (\<exists>piece.
            wirePieces (world (fst (wireQueueTick c st))) (nodeKey (wire e ! cursor e))
              = Some piece
          \<and> lerp piece = 1
          \<and> (Suc (cursor e) = 1 \<longrightarrow> tipPosition piece = TipBegin)
          \<and> (Suc (cursor e) = length (wire e) \<and> 1 < length (wire e)
               \<longrightarrow> tipPosition piece = TipEnd)
          \<and> (Suc (cursor e) \<noteq> 1 \<and> Suc (cursor e) \<noteq> length (wire e)
               \<longrightarrow> tipPosition piece = TipFalse))
        \<and> wiresQueue (world (fst (wireQueueTick c st)))
            = e\<lparr>cursor := Suc (cursor e)\<rparr> # rest)
     \<and> (\<not> segmentDuration < elapsed st (shd c) \<and> cursor e = 0 \<longrightarrow>
          (\<exists>piece.
              wirePieces (world (fst (wireQueueTick c st))) (nodeKey (wire e ! cursor e))
                = Some piece
            \<and> tipPosition piece = TipBeginEnd))"
proof (intro conjI impI)
  assume "segmentDuration < elapsed st (shd c)"
  note fin = wireQueueTick_finalize [OF assms this]
  show "\<exists>piece.
            wirePieces (world (fst (wireQueueTick c st))) (nodeKey (wire e ! cursor e))
              = Some piece
          \<and> lerp piece = 1
          \<and> (Suc (cursor e) = 1 \<longrightarrow> tipPosition piece = TipBegin)
          \<and> (Suc (cursor e) = length (wire e) \<and> 1 < length (wire e)
               \<longrightarrow> tipPosition piece = TipEnd)
          \<and> (Suc (cursor e) \<noteq> 1 \<and> Suc (cursor e) \<noteq> length (wire e)
               \<longrightarrow> tipPosition piece = TipFalse)"
    by (simp add: fin)
  show "wiresQueue (world (fst (wireQueueTick c st))) = e\<lparr>cursor := Suc (cursor e)\<rparr> # rest"
    by (simp add: fin)
next
  assume "\<not> segmentDuration < elapsed st (shd c) \<and> cursor e = 0"
  then have p: "\<not> segmentDuration < elapsed st (shd c)" and z: "cursor e = 0"
    by simp_all
  show "\<exists>piece.
              wirePieces (world (fst (wireQueueTick c st))) (nodeKey (wire e ! cursor e))
                = Some piece
            \<and> tipPosition piece = TipBeginEnd"
    by (simp add: wireQueueTick_progress [OF assms p] z)
qed

theorem wireQueueTick_tips_witness:
  "wirePieces (world (fst (wireQueueTick (sconst 1021) exampleArt))) ''3,0''
     = Some \<lparr>WirePiece.direction = Str ''down-right'', lerp = 1, tipPosition = TipBegin\<rparr>
   \<and> wirePieces (world (fst (wireQueueTick (sconst 1021)
        (exampleArt\<lparr>world := (world exampleArt)
           \<lparr>wiresQueue := [\<lparr>wire = exampleWire, cursor = 9\<rparr>]\<rparr>\<rparr>)))) ''0,9''
     = Some \<lparr>WirePiece.direction = Str ''down'', lerp = 1, tipPosition = TipEnd\<rparr>
   \<and> wirePieces (world (fst (wireQueueTick (sconst 1021)
        (exampleArt\<lparr>world := (world exampleArt)
           \<lparr>wiresQueue := [\<lparr>wire = exampleWire, cursor = 4\<rparr>]\<rparr>\<rparr>)))) ''3,4''
     = Some \<lparr>WirePiece.direction = Str ''down-left'', lerp = 1, tipPosition = TipFalse\<rparr>
   \<and> (\<exists>piece. wirePieces (world (fst (wireQueueTick (sconst 1007) exampleArt))) ''3,0''
         = Some piece \<and> tipPosition piece = TipBeginEnd)"
proof -
  have t: "wireQueueTimer exampleArt"
    "wiresQueue (world exampleArt) = [\<lparr>wire = exampleWire, cursor = 0\<rparr>]"
    "pieceLerpBeginTime exampleArt = 1000"
    by (simp_all add: exampleArt_def)
  have late: "segmentDuration < elapsed st (shd (sconst 1021))"
    if "pieceLerpBeginTime st = 1000" for st
    using that by (simp add: segmentDuration_def elapsed_def WIRE_LERP_SPEED_def)
  have early: "\<not> segmentDuration < elapsed exampleArt (shd (sconst 1007))"
    by (simp add: segmentDuration_def elapsed_def WIRE_LERP_SPEED_def t)
  have a: "wirePieces (world (fst (wireQueueTick (sconst 1021) exampleArt))) ''3,0''
     = Some \<lparr>WirePiece.direction = Str ''down-right'', lerp = 1, tipPosition = TipBegin\<rparr>"
    using wireQueueTick_tips [of exampleArt "\<lparr>wire = exampleWire, cursor = 0\<rparr>" "[]"
        "sconst 1021"] late [OF t(3)] t
    by (auto simp: exampleWire_nodes nodeKey_def key_3_0 wireQueueTick_finalize)
  have b: "wirePieces (world (fst (wireQueueTick (sconst 1021)
        (exampleArt\<lparr>world := (world exampleArt)
           \<lparr>wiresQueue := [\<lparr>wire = exampleWire, cursor = 9\<rparr>]\<rparr>\<rparr>)))) ''0,9''
     = Some \<lparr>WirePiece.direction = Str ''down'', lerp = 1, tipPosition = TipEnd\<rparr>"
    using wireQueueTick_tips [of "exampleArt\<lparr>world := (world exampleArt)
           \<lparr>wiresQueue := [\<lparr>wire = exampleWire, cursor = 9\<rparr>]\<rparr>\<rparr>"
        "\<lparr>wire = exampleWire, cursor = 9\<rparr>" "[]" "sconst 1021"]
      late [OF exampleArt_queue(3)] exampleArt_queue
    by (auto simp: exampleWire_nodes nodeKey_def key_0_9 wireQueueTick_finalize)
  have c: "wirePieces (world (fst (wireQueueTick (sconst 1021)
        (exampleArt\<lparr>world := (world exampleArt)
           \<lparr>wiresQueue := [\<lparr>wire = exampleWire, cursor = 4\<rparr>]\<rparr>\<rparr>)))) ''3,4''
     = Some \<lparr>WirePiece.direction = Str ''down-left'', lerp = 1, tipPosition = TipFalse\<rparr>"
    using wireQueueTick_tips [of "exampleArt\<lparr>world := (world exampleArt)
           \<lparr>wiresQueue := [\<lparr>wire = exampleWire, cursor = 4\<rparr>]\<rparr>\<rparr>"
        "\<lparr>wire = exampleWire, cursor = 4\<rparr>" "[]" "sconst 1021"]
      late [OF exampleArt_queue(3)] exampleArt_queue
    by (auto simp: exampleWire_nodes nodeKey_def key_3_4 wireQueueTick_finalize)
  have d: "\<exists>piece. wirePieces (world (fst (wireQueueTick (sconst 1007) exampleArt))) ''3,0''
         = Some piece \<and> tipPosition piece = TipBeginEnd"
    using wireQueueTick_tips [of exampleArt "\<lparr>wire = exampleWire, cursor = 0\<rparr>" "[]"
        "sconst 1007"] early t
    by (simp add: exampleWire_nodes nodeKey_def key_3_0)
  show ?thesis
    using a b c d by blast
qed

text \<open>
  Claim C7. When the reveal interval fires with the head wire still growing, the time
  since the segment began does not exceed the time a segment takes, and the clock has
  not gone back, the piece written for the current node has \<open>lerp\<close> equal to the elapsed
  fraction, and \<open>0 \<le> lerp \<le> 1\<close>; \<open>lerp\<close> is below 1 exactly when the elapsed time is
  below the time a segment takes.
\<close>

theorem wireQueueTick_progress_lerp:
  assumes "wireQueueTimer st" "wiresQueue (world st) = e # rest"
    "cursor e < length (wire e)"
    "\<not> segmentDuration < elapsed st (shd c)"
    "pieceLerpBeginTime st \<le> shd c"
  shows "\<exists>piece.
      wirePieces (world (fst (wireQueueTick c st))) (nodeKey (wire e ! cursor e)) = Some piece
    \<and> lerp piece = elapsed st (shd c) / segmentDuration
    \<and> 0 \<le> lerp piece \<and> lerp piece \<le> 1
    \<and> (lerp piece < 1 \<longleftrightarrow> elapsed st (shd c) < segmentDuration)"
proof -
  have "0 \<le> elapsed st (shd c)"
    using assms(5) by (simp add: elapsed_def)
  moreover have "elapsed st (shd c) \<le> 20"
    using assms(4) by (simp add: segmentDuration_def WIRE_LERP_SPEED_def)
  ultimately show ?thesis
    by (simp add: wireQueueTick_progress [OF assms(1-4)] segmentDuration_def
        WIRE_LERP_SPEED_def)
qed

theorem wireQueueTick_progress_lerp_witness:
  "\<not> segmentDuration < elapsed exampleArt (shd (sconst 1007))
   \<and> pieceLerpBeginTime exampleArt \<le> shd (sconst 1007)
   \<and> wirePieces (world (fst (wireQueueTick (sconst 1007) exampleArt))) ''3,0''
       = Some \<lparr>WirePiece.direction = Str ''down-right'', lerp = 7 / 20,
               tipPosition = TipBeginEnd\<rparr>"
proof -
  have t: "wireQueueTimer exampleArt"
    "wiresQueue (world exampleArt) = [\<lparr>wire = exampleWire, cursor = 0\<rparr>]"
    "pieceLerpBeginTime exampleArt = 1000"
    by (simp_all add: exampleArt_def)
  have early: "\<not> segmentDuration < elapsed exampleArt (shd (sconst 1007))"
    by (simp add: segmentDuration_def elapsed_def WIRE_LERP_SPEED_def t)
  have mono: "pieceLerpBeginTime exampleArt \<le> shd (sconst 1007)"
    by (simp add: t)
  have "wirePieces (world (fst (wireQueueTick (sconst 1007) exampleArt))) ''3,0''
       = Some \<lparr>WirePiece.direction = Str ''down-right'', lerp = 7 / 20,
               tipPosition = TipBeginEnd\<rparr>"
    using wireQueueTick_progress_lerp [of exampleArt "\<lparr>wire = exampleWire, cursor = 0\<rparr>"
        "[]" "sconst 1007"] early mono t
    by (auto simp: exampleWire_nodes nodeKey_def key_3_0 wireQueueTick_progress
        elapsed_def WIRE_LERP_SPEED_def)
  then show ?thesis
    using early mono by blast
qed

text \<open>
  At the reading where the elapsed time equals the time a segment takes, the segment
  is not finalized and the piece written has \<open>lerp = 1\<close>.
\<close>

theorem wireQueueTick_progress_lerp_counterexample:
  "wireQueueTimer exampleArt
   \<and> cursor (hd (wiresQueue (world exampleArt))) < length (wire (hd (wiresQueue (world exampleArt))))
   \<and> pieceLerpBeginTime exampleArt \<le> shd (sconst 1020)
   \<and> \<not> segmentDuration < elapsed exampleArt (shd (sconst 1020))
   \<and> wirePieces (world (fst (wireQueueTick (sconst 1020) exampleArt))) ''3,0''
       = Some \<lparr>WirePiece.direction = Str ''down-right'', lerp = 1,
               tipPosition = TipBeginEnd\<rparr>"
proof -
  have t: "wireQueueTimer exampleArt"
    "wiresQueue (world exampleArt) = [\<lparr>wire = exampleWire, cursor = 0\<rparr>]"
    "pieceLerpBeginTime exampleArt = 1000"
    by (simp_all add: exampleArt_def)
  have e: "\<not> segmentDuration < elapsed exampleArt (shd (sconst 1020))"
    by (simp add: segmentDuration_def elapsed_def WIRE_LERP_SPEED_def t)
  have "wireQueueTick (sconst 1020) exampleArt =
    (exampleArt\<lparr>world := (world exampleArt)
          \<lparr>wirePieces := (wirePieces (world exampleArt))(''3,0'' \<mapsto>
             \<lparr>WirePiece.direction = Str ''down-right'', lerp = 1,
              tipPosition = TipBeginEnd\<rparr>)\<rparr>,
        dirty := True\<rparr>,
     sconst 1020)"
    using wireQueueTick_progress [of exampleArt "\<lparr>wire = exampleWire, cursor = 0\<rparr>" "[]"
        "sconst 1020"] e t
    by (simp add: exampleWire_nodes nodeKey_def key_3_0 elapsed_def WIRE_LERP_SPEED_def)
  then show ?thesis
    using t e by (simp add: exampleWire_nodes)
qed

section \<open>Schedules\<close>

lemma runTicks_append:
  "runTicks (ts @ us) st r c =
     (case runTicks ts st r c of (es, st1, r1, c1) \<Rightarrow>
        (case runTicks us st1 r1 c1 of (es', fin) \<Rightarrow> (es @ es', fin)))"
proof (induction ts st r c rule: runTicks.induct)
  case (1 st r c)
  then show ?case by (simp split: prod.splits)
next
  case (2 ts st r c)
  then show ?case by (simp split: prod.splits)
next
  case (3 ts st r c)
  then show ?case by (simp split: prod.splits)
qed

lemma wireGeneratorTick_busy:
  assumes "wiresQueue (world st) \<noteq> []"
  shows "\<exists>e. wireGeneratorTick r st = (e, st, r)"
  using assms by (simp add: wireGeneratorTick_def)

lemma headGrowing_generator:
  assumes "headGrowing st e1 others st1" "wireGeneratorTick r st1 = (e, st2, r')"
  shows "headGrowing st e1 others st2"
proof -
  have "wiresQueue (world st1) \<noteq> []" using assms(1) by (auto simp: headGrowing_def)
  then have "st2 = st1" using wireGeneratorTick_busy [of st1 r] assms(2) by auto
  then show ?thesis using assms(1) by simp
qed

lemma headGrowing_queue:
  assumes "headGrowing st e1 others st1" "wireQueueTick c st1 = (st2, c')"
    "\<not> (wireQueueTimer st1 \<and> (\<exists>k\<ge>length (wire e1). wiresQueue (world st1) = e1\<lparr>cursor := k\<rparr> # others))"
  shows "headGrowing st e1 others st2"
proof (cases "wireQueueTimer st1")
  case False
  then show ?thesis using assms(1,2) by (simp add: wireQueueTick_cleared)
next
  case True
  obtain k where k: "wiresQueue (world st1) = e1\<lparr>cursor := k\<rparr> # others" "cursor e1 \<le> k"
    using assms(1) by (auto simp: headGrowing_def)
  have ch: "\<forall>key. wirePieces (world st1) key \<noteq> wirePieces (world st) key
            \<longrightarrow> key \<in> nodeKey ` set (wire e1)"
    using assms(1) by (simp add: headGrowing_def)
  let ?e = "e1\<lparr>cursor := k\<rparr>"
  have kl: "k < length (wire e1)"
  proof (rule ccontr)
    assume "\<not> k < length (wire e1)"
    then have "length (wire e1) \<le> k" by simp
    with True k(1) assms(3) show False by blast
  qed
  then have lt: "cursor ?e < length (wire ?e)" by simp
  from kl have mem: "nodeKey (wire e1 ! k) \<in> nodeKey ` set (wire e1)" by simp
  show ?thesis
  proof (cases "segmentDuration < elapsed st1 (shd c)")
    case fin: True
    have "st2 = fst (wireQueueTick c st1)" using assms(2) by simp
    then show ?thesis
      using ch mem k(2)
      by (auto simp: wireQueueTick_finalize [OF True k(1) lt fin] headGrowing_def)
  next
    case prog: False
    have "st2 = fst (wireQueueTick c st1)" using assms(2) by simp
    then show ?thesis
      using ch mem k
      by (auto simp: wireQueueTick_progress [OF True k(1) lt prog] headGrowing_def)
  qed
qed


lemma headGrowing_start:
  assumes "wiresQueue (world st) = e1 # others"
  shows "headGrowing st e1 others st"
proof -
  have "wiresQueue (world st) = e1\<lparr>cursor := cursor e1\<rparr> # others \<and> cursor e1 \<le> cursor e1"
    using assms by simp
  then show ?thesis
    unfolding headGrowing_def by blast
qed

lemma headDrainedAt_snoc:
  assumes "headDrainedAt st r c ts e1 others n"
  shows "headDrainedAt st r c (ts @ [t]) e1 others n"
proof -
  have n: "n < length ts" using assms by (simp add: headDrainedAt_def)
  then have "take n (ts @ [t]) = take n ts" "(ts @ [t]) ! n = ts ! n"
    by (simp_all add: nth_append)
  then show ?thesis
    using assms n unfolding headDrainedAt_def by simp
qed

lemma headDrainedAt_last:
  assumes "runTicks ts st r c = (es1, st1, r1, c1)" "headGrowing st e1 others st1"
    "wireQueueTimer st1" "length (wire e1) \<le> k"
    "wiresQueue (world st1) = e1\<lparr>cursor := k\<rparr> # others"
  shows "headDrainedAt st r c (ts @ [QueueTick]) e1 others (length ts)"
proof -
  have "\<not> cursor (e1\<lparr>cursor := k\<rparr>) < length (wire (e1\<lparr>cursor := k\<rparr>))"
    using assms(4) by simp
  then have dr: "wireQueueTick c1 st1 = (st1\<lparr>world := (world st1)\<lparr>wiresQueue := others\<rparr>\<rparr>, c1)"
    using assms(3,5) by (rule wireQueueTick_drained [rotated 2])
  have q: "wiresQueue (world (fst (wireQueueTick c1 st1))) = others"
    "wirePieces (world (fst (wireQueueTick c1 st1))) = wirePieces (world st1)"
    by (simp_all add: dr)
  have ex: "\<exists>k\<ge>length (wire e1). wiresQueue (world st1) = e1\<lparr>cursor := k\<rparr> # others"
    using assms(4,5) by blast
  show ?thesis
    unfolding headDrainedAt_def using assms(1,2) q ex by simp
qed

text \<open>
  Claim C8. The reveal queue is first in, first out. From a state with two or more
  queued wires, after any schedule of firings of the two intervals: either the first
  wire is still at the head, the entries behind it (the second wire and its cursor
  among them) are as they were, and the store has changed only at keys of nodes of the
  first wire; or an earlier firing found the first wire's cursor at the length of its
  wire and took the entry off the head of the queue, nothing but cells of the first
  wire having been written until then.
\<close>

theorem reveal_is_fifo:
  assumes "wiresQueue (world st) = e1 # e2 # rest"
    "runTicks ts st r c = (es, st', r', c')"
  shows "headGrowing st e1 (e2 # rest) st'
    \<or> (\<exists>n. headDrainedAt st r c ts e1 (e2 # rest) n)"
  using assms(2)
proof (induction ts arbitrary: es st' r' c' rule: rev_induct)
  case Nil
  then have "st' = st" by simp
  then show ?case using headGrowing_start [OF assms(1)] by simp
next
  case (snoc t ts)
  obtain es1 st1 r1 c1 where run1: "runTicks ts st r c = (es1, st1, r1, c1)"
    by (cases "runTicks ts st r c") auto
  obtain es2 fin where run2: "runTicks [t] st1 r1 c1 = (es2, fin)"
    by (cases "runTicks [t] st1 r1 c1") auto
  have "runTicks (ts @ [t]) st r c = (es1 @ es2, fin)"
    by (simp add: runTicks_append run1 run2)
  then have "fin = (st', r', c')"
    using snoc.prems by simp
  then have last: "runTicks [t] st1 r1 c1 = (es2, st', r', c')"
    using run2 by simp
  from snoc.IH [OF run1] show ?case
  proof
    assume "\<exists>n. headDrainedAt st r c ts e1 (e2 # rest) n"
    then show ?thesis using headDrainedAt_snoc by blast
  next
    assume hg: "headGrowing st e1 (e2 # rest) st1"
    show ?thesis
    proof (cases t)
      case GeneratorTick
      obtain e st2 r2 where g: "wireGeneratorTick r1 st1 = (e, st2, r2)"
        by (cases "wireGeneratorTick r1 st1") auto
      then have "st2 = st'"
        using last GeneratorTick by simp
      then show ?thesis using headGrowing_generator [OF hg g] by simp
    next
      case QueueTick
      obtain st2 c2 where q: "wireQueueTick c1 st1 = (st2, c2)"
        by (cases "wireQueueTick c1 st1") auto
      then have st2: "st2 = st'"
        using last QueueTick by simp
      show ?thesis
      proof (cases "wireQueueTimer st1 \<and> (\<exists>k\<ge>length (wire e1). wiresQueue (world st1) = e1\<lparr>cursor := k\<rparr> # e2 # rest)")
        case False
        then show ?thesis using headGrowing_queue [OF hg q] st2 by simp
      next
        case True
        then obtain k where k: "length (wire e1) \<le> k"
          "wiresQueue (world st1) = e1\<lparr>cursor := k\<rparr> # e2 # rest"
          by blast
        have "headDrainedAt st r c (ts @ [QueueTick]) e1 (e2 # rest) (length ts)"
          using run1 hg _ k by (rule headDrainedAt_last) (use True in simp)
        then show ?thesis using QueueTick by blast
      qed
    qed
  qed
qed


lemma key_7_1: "toLatticePoint 7 1 = ''7,1''"
  by code_simp

lemma exampleQueued_run:
  "runTicks [QueueTick, GeneratorTick, QueueTick, QueueTick] exampleQueued exampleDraws
      exampleClock =
   ([QueueBusy],
    \<lparr>world =
       \<lparr>dimensions = (4, 4),
        wirePieces =
          [''0,0'' \<mapsto> \<lparr>WirePiece.direction = Str ''down'', lerp = 1,
                         tipPosition = TipBegin\<rparr>,
           ''0,9'' \<mapsto> \<lparr>WirePiece.direction = Str ''down'', lerp = 1,
                         tipPosition = TipEnd\<rparr>,
           ''7,1'' \<mapsto> \<lparr>WirePiece.direction = Str ''down'', lerp = 1 / 2,
                         tipPosition = TipBeginEnd\<rparr>],
        wiresQueue = [\<lparr>wire = [\<lparr>point = (7, 1), direction = Str ''down''\<rparr>], cursor = 0\<rparr>]\<rparr>,
     dirty = True, failedTries = 0, pieceLerpBeginTime = 1030,
     wireGeneratorTimer = True, wireQueueTimer = True\<rparr>,
    exampleDraws, sconst 1040)"
  by (simp add: wireQueueTick_def wireGeneratorTick_def getTime_def WIRE_LERP_SPEED_def
      exampleQueued_def exampleArt_def exampleWorld_def exampleWire_def exampleClock_def
      Let_def key_0_9 key_7_1)

theorem reveal_is_fifo_witness:
  "wiresQueue (world exampleQueued) =
     [\<lparr>wire = exampleWire, cursor = 9\<rparr>,
      \<lparr>wire = [\<lparr>point = (7, 1), direction = Str ''down''\<rparr>], cursor = 0\<rparr>]
   \<and> wirePieces (world (fst (snd (runTicks [QueueTick, GeneratorTick, QueueTick, QueueTick]
        exampleQueued exampleDraws exampleClock)))) ''7,1'' \<noteq> None
   \<and> (\<exists>n. headDrainedAt exampleQueued exampleDraws exampleClock
          [QueueTick, GeneratorTick, QueueTick, QueueTick]
          \<lparr>wire = exampleWire, cursor = 9\<rparr>
          [\<lparr>wire = [\<lparr>point = (7, 1), direction = Str ''down''\<rparr>], cursor = 0\<rparr>] n)"
proof -
  have q: "wiresQueue (world exampleQueued) =
     \<lparr>wire = exampleWire, cursor = 9\<rparr>
       # \<lparr>wire = [\<lparr>point = (7, 1), direction = Str ''down''\<rparr>], cursor = 0\<rparr> # []"
    by (simp add: exampleQueued_def)
  have "\<not> headGrowing exampleQueued \<lparr>wire = exampleWire, cursor = 9\<rparr>
          [\<lparr>wire = [\<lparr>point = (7, 1), direction = Str ''down''\<rparr>], cursor = 0\<rparr>]
          \<lparr>world =
       \<lparr>dimensions = (4, 4),
        wirePieces =
          [''0,0'' \<mapsto> \<lparr>WirePiece.direction = Str ''down'', lerp = 1,
                         tipPosition = TipBegin\<rparr>,
           ''0,9'' \<mapsto> \<lparr>WirePiece.direction = Str ''down'', lerp = 1,
                         tipPosition = TipEnd\<rparr>,
           ''7,1'' \<mapsto> \<lparr>WirePiece.direction = Str ''down'', lerp = 1 / 2,
                         tipPosition = TipBeginEnd\<rparr>],
        wiresQueue = [\<lparr>wire = [\<lparr>point = (7, 1), direction = Str ''down''\<rparr>], cursor = 0\<rparr>]\<rparr>,
     dirty = True, failedTries = 0, pieceLerpBeginTime = 1030,
     wireGeneratorTimer = True, wireQueueTimer = True\<rparr>"
    by (simp add: headGrowing_def)
  moreover have "wirePieces (world (fst (snd (runTicks
        [QueueTick, GeneratorTick, QueueTick, QueueTick]
        exampleQueued exampleDraws exampleClock)))) ''7,1'' \<noteq> None"
    by (simp only: exampleQueued_run) simp
  ultimately show ?thesis
    using reveal_is_fifo [OF q exampleQueued_run] q by blast
qed

section \<open>The admission interval\<close>

lemma wireGeneratorTick_cleared:
  "\<not> wireGeneratorTimer st \<Longrightarrow> wireGeneratorTick r st = (TimerCleared, st, r)"
  by (simp add: wireGeneratorTick_def)

lemma wireGeneratorTick_stop:
  assumes "wireGeneratorTimer st" "wiresQueue (world st) = []" "200 < failedTries st"
  shows "wireGeneratorTick r st = (Stopped, st\<lparr>wireGeneratorTimer := False\<rparr>, r)"
  using assms by (simp add: wireGeneratorTick_def)

lemma wireGeneratorTick_attempt:
  assumes "wireGeneratorTimer st" "wiresQueue (world st) = []" "\<not> 200 < failedTries st"
    "unitDraws r"
  shows "\<exists>w r1. unitDraws r1
      \<and> (wireIntersects (world st) w
           \<and> wireGeneratorTick r st
               = (Discarded w, st\<lparr>failedTries := failedTries st + 1\<rparr>, r1)
         \<or> \<not> wireIntersects (world st) w
           \<and> (\<exists>st1. wireGeneratorTick r st = (Enqueued w, st1, r1)))"
proof -
  obtain w r1 where g: "generateWire (world st) r = (Inr w, r1)" "unitDraws r1"
    using generateWire_total [OF assms(4), of "world st"] by blast
  show ?thesis
  proof (cases "wireIntersects (world st) w")
    case True
    then have "wireGeneratorTick r st = (Discarded w, st\<lparr>failedTries := failedTries st + 1\<rparr>, r1)"
      using assms(1-3) g(1) by (simp add: wireGeneratorTick_def)
    then show ?thesis using g(2) True by blast
  next
    case False
    then have "\<exists>st1. wireGeneratorTick r st = (Enqueued w, st1, r1)"
      using assms(1-3) g(1) by (simp add: wireGeneratorTick_def)
    then show ?thesis using g(2) False by blast
  qed
qed

lemma runTicks_cleared:
  assumes "\<not> wireGeneratorTimer st" "wiresQueue (world st) = []"
  shows "runTicks ts st r c = (map (\<lambda>t. TimerCleared) (filter (\<lambda>t. t = GeneratorTick) ts), st, r, c)"
proof (induction ts)
  case Nil
  then show ?case by simp
next
  case (Cons t ts)
  then show ?case
    using assms by (cases t) (simp_all add: wireGeneratorTick_cleared wireQueueTick_idle)
qed

lemma runTicks_failures:
  assumes "wireGeneratorTimer st" "wiresQueue (world st) = []" "failedTries st \<le> 201"
    "unitDraws r" "runTicks ts st r c = (es, st', r', c')"
    "\<forall>w. Enqueued w \<in> set es \<or> Discarded w \<in> set es \<longrightarrow> wireIntersects (world st) w"
  shows "world st' = world st
    \<and> (\<forall>i<length es.
          (i + failedTries st < 201 \<longrightarrow> (\<exists>w. es ! i = Discarded w))
        \<and> (i + failedTries st = 201 \<longrightarrow> es ! i = Stopped)
        \<and> (201 < i + failedTries st \<longrightarrow> es ! i = TimerCleared))"
  using assms
proof (induction ts arbitrary: st r c es)
  case Nil
  then show ?case by simp
next
  case (Cons t ts)
  show ?case
  proof (cases t)
    case QueueTick
    then have "runTicks ts st r c = (es, st', r', c')"
      using Cons.prems(2,5) by (simp add: wireQueueTick_idle)
    then show ?thesis
      using Cons.IH Cons.prems by blast
  next
    case GeneratorTick
    show ?thesis
    proof (cases "200 < failedTries st")
      case True
      then have k: "failedTries st = 201" using Cons.prems(3) by simp
      let ?st = "st\<lparr>wireGeneratorTimer := False\<rparr>"
      have off: "\<not> wireGeneratorTimer ?st" "wiresQueue (world ?st) = []"
        using Cons.prems(2) by simp_all
      have "runTicks (t # ts) st r c =
          (Stopped # map (\<lambda>t. TimerCleared) (filter (\<lambda>t. t = GeneratorTick) ts), ?st, r, c)"
        using GeneratorTick wireGeneratorTick_stop [OF Cons.prems(1,2) True]
          runTicks_cleared [OF off] by simp
      then have es: "es = Stopped # map (\<lambda>t. TimerCleared) (filter (\<lambda>t. t = GeneratorTick) ts)"
        and st': "st' = ?st"
        using Cons.prems(5) by simp_all
      have "\<forall>i<length es. (i = 0 \<longrightarrow> es ! i = Stopped) \<and> (0 < i \<longrightarrow> es ! i = TimerCleared)"
        by (auto simp: es nth_Cons')
      then show ?thesis
        using k st' by auto
    next
      case False
      obtain w r1 where r1: "unitDraws r1" and
        tick: "wireIntersects (world st) w
           \<and> wireGeneratorTick r st
               = (Discarded w, st\<lparr>failedTries := failedTries st + 1\<rparr>, r1)
         \<or> \<not> wireIntersects (world st) w
           \<and> (\<exists>st1. wireGeneratorTick r st = (Enqueued w, st1, r1))"
        using wireGeneratorTick_attempt [OF Cons.prems(1,2) False Cons.prems(4)] by blast
      obtain e st1 r2 where e: "wireGeneratorTick r st = (e, st1, r2)"
        by (cases "wireGeneratorTick r st") auto
      obtain es1 fin where run1: "runTicks ts st1 r2 c = (es1, fin)"
        by (cases "runTicks ts st1 r2 c") auto
      have "runTicks (t # ts) st r c = (e # es1, fin)"
        using GeneratorTick e run1 by simp
      then have es: "es = e # es1" and fin: "fin = (st', r', c')"
        using Cons.prems(5) by simp_all
      have "e = Enqueued w \<longrightarrow> wireIntersects (world st) w"
        using Cons.prems(6) es by simp
      then have d: "e = Discarded w" "st1 = st\<lparr>failedTries := failedTries st + 1\<rparr>" "r2 = r1"
        using tick e by auto
      let ?st = "st\<lparr>failedTries := failedTries st + 1\<rparr>"
      have "world st' = world ?st
        \<and> (\<forall>i<length es1.
              (i + failedTries ?st < 201 \<longrightarrow> (\<exists>w. es1 ! i = Discarded w))
            \<and> (i + failedTries ?st = 201 \<longrightarrow> es1 ! i = Stopped)
            \<and> (201 < i + failedTries ?st \<longrightarrow> es1 ! i = TimerCleared))"
      proof (rule Cons.IH)
        show "wireGeneratorTimer ?st" using Cons.prems(1) by simp
        show "wiresQueue (world ?st) = []" using Cons.prems(2) by simp
        show "failedTries ?st \<le> 201" using False by simp
        show "unitDraws r1" by (rule r1)
        show "runTicks ts ?st r1 c = (es1, st', r', c')" using run1 fin d by simp
        show "\<forall>w. Enqueued w \<in> set es1 \<or> Discarded w \<in> set es1
                \<longrightarrow> wireIntersects (world ?st) w"
          using Cons.prems(6) es by simp
      qed
      then have w: "world st' = world st" and
        ih: "\<forall>i<length es1.
              (i + failedTries st + 1 < 201 \<longrightarrow> (\<exists>w. es1 ! i = Discarded w))
            \<and> (i + failedTries st + 1 = 201 \<longrightarrow> es1 ! i = Stopped)
            \<and> (201 < i + failedTries st + 1 \<longrightarrow> es1 ! i = TimerCleared)"
        by simp_all
      have "\<forall>i<length es.
          (i + failedTries st < 201 \<longrightarrow> (\<exists>w. es ! i = Discarded w))
        \<and> (i + failedTries st = 201 \<longrightarrow> es ! i = Stopped)
        \<and> (201 < i + failedTries st \<longrightarrow> es ! i = TimerCleared)"
      proof (intro allI impI)
        fix i assume i: "i < length es"
        show "(i + failedTries st < 201 \<longrightarrow> (\<exists>w. es ! i = Discarded w))
        \<and> (i + failedTries st = 201 \<longrightarrow> es ! i = Stopped)
        \<and> (201 < i + failedTries st \<longrightarrow> es ! i = TimerCleared)"
        proof (cases i)
          case 0
          then show ?thesis using False d(1) es by simp
        next
          case (Suc j)
          then have "j < length es1" using i es by simp
          then show ?thesis using ih Suc es by simp
        qed
      qed
      then show ?thesis using w by simp
    qed
  qed
qed


text \<open>The run of the admission interval on the example world when every draw is 0.\<close>

lemma exampleZeroDraws_sel: "shd exampleZeroDraws = 0" "stl exampleZeroDraws = exampleZeroDraws"
  by (simp_all add: exampleZeroDraws_def)

lemma generateWire_zero:
  "generateWire exampleWorld exampleZeroDraws = (Inr exampleZeroWire, exampleZeroDraws)"
  by (simp add: generateWire_def exampleWorld_def exampleZeroWire_def Math_random_def
      randomPoint_def randomDirection_def randomChoice_def chosenDirection_def
      changeDirection_def Let_def numeral_eq_Suc exampleZeroDraws_sel)

lemma exampleZeroWire_intersects: "wireIntersects exampleWorld exampleZeroWire"
  by (simp add: wireIntersects_def nodeIntersects_def exampleWorld_def exampleZeroWire_def
      key_0_0)

lemma unitDraws_zero: "unitDraws exampleZeroDraws"
  by (simp add: unitDraws_def exampleZeroDraws_def)

lemma exampleWorld_queue: "wiresQueue exampleWorld = []"
  by (simp add: exampleWorld_def)

lemma runTicks_zero:
  assumes "wireGeneratorTimer st" "world st = exampleWorld" "failedTries st + n \<le> 201"
  shows "runTicks (replicate n GeneratorTick) st exampleZeroDraws c =
    (replicate n (Discarded exampleZeroWire), st\<lparr>failedTries := failedTries st + n\<rparr>,
     exampleZeroDraws, c)"
  using assms
proof (induction n arbitrary: st)
  case 0
  then show ?case by simp
next
  case (Suc n)
  let ?st = "st\<lparr>failedTries := failedTries st + 1\<rparr>"
  have q: "wiresQueue (world st) = []"
    using Suc.prems(2) by (simp add: exampleWorld_def)
  have tick: "wireGeneratorTick exampleZeroDraws st = (Discarded exampleZeroWire, ?st, exampleZeroDraws)"
    using Suc.prems q generateWire_zero exampleZeroWire_intersects
    by (simp add: wireGeneratorTick_def)
  have "runTicks (replicate n GeneratorTick) ?st exampleZeroDraws c =
    (replicate n (Discarded exampleZeroWire), ?st\<lparr>failedTries := failedTries ?st + n\<rparr>,
     exampleZeroDraws, c)"
    by (rule Suc.IH) (use Suc.prems in simp_all)
  then show ?case
    using tick by simp
qed

lemma exampleIdle_fields:
  "wireGeneratorTimer exampleIdle" "world exampleIdle = exampleWorld"
  "failedTries exampleIdle = 0" "wiresQueue (world exampleIdle) = []"
  by (simp_all add: exampleIdle_def exampleArt_def exampleWorld_def)

text \<open>
  Claim C3. From a state with the admission interval scheduled, a fresh failure counter
  and an empty queue, along any schedule in which every candidate that the generator
  produces (enqueued or discarded) intersects the occupancy: the world is never
  changed, the first 201 firings of the admission interval each generate a candidate
  and discard it, the 202nd clears the interval without generating one, and no later
  firing happens. Admission stops for good after exactly 201 consecutive failures.
\<close>

theorem admission_stops_after_201:
  assumes "wireGeneratorTimer st" "failedTries st = 0" "wiresQueue (world st) = []"
    "unitDraws r" "runTicks ts st r c = (es, st', r', c')"
    "\<forall>w. Enqueued w \<in> set es \<or> Discarded w \<in> set es \<longrightarrow> wireIntersects (world st) w"
  shows "world st' = world st
    \<and> (\<forall>i<length es.
          (i < 201 \<longrightarrow> (\<exists>w. es ! i = Discarded w))
        \<and> (i = 201 \<longrightarrow> es ! i = Stopped)
        \<and> (201 < i \<longrightarrow> es ! i = TimerCleared))"
  using runTicks_failures [OF assms(1) assms(3) _ assms(4) assms(5) assms(6)] assms(2)
  by simp

theorem admission_stops_after_201_witness:
  "unitDraws exampleZeroDraws
   \<and> runTicks (replicate 201 GeneratorTick @ [GeneratorTick, QueueTick, GeneratorTick])
        exampleIdle exampleZeroDraws exampleClock =
      (replicate 201 (Discarded exampleZeroWire) @ [Stopped, TimerCleared],
       exampleIdle\<lparr>failedTries := 201, wireGeneratorTimer := False\<rparr>,
       exampleZeroDraws, exampleClock)
   \<and> (\<exists>w. (replicate 201 (Discarded exampleZeroWire) @ [Stopped, TimerCleared]) ! 200
          = Discarded w)
   \<and> (replicate 201 (Discarded exampleZeroWire) @ [Stopped, TimerCleared]) ! 201 = Stopped
   \<and> (replicate 201 (Discarded exampleZeroWire) @ [Stopped, TimerCleared]) ! 202
        = TimerCleared"
proof -
  let ?es = "replicate 201 (Discarded exampleZeroWire) @ [Stopped, TimerCleared]"
  have run1: "runTicks (replicate 201 GeneratorTick) exampleIdle exampleZeroDraws exampleClock =
    (replicate 201 (Discarded exampleZeroWire), exampleIdle\<lparr>failedTries := 201\<rparr>,
     exampleZeroDraws, exampleClock)"
    using runTicks_zero [of exampleIdle 201 exampleClock] by (simp add: exampleIdle_fields)
  have run2: "runTicks [GeneratorTick, QueueTick, GeneratorTick]
      (exampleIdle\<lparr>failedTries := 201\<rparr>) exampleZeroDraws exampleClock =
    ([Stopped, TimerCleared], exampleIdle\<lparr>failedTries := 201, wireGeneratorTimer := False\<rparr>,
     exampleZeroDraws, exampleClock)"
    by (simp add: wireGeneratorTick_def wireQueueTick_def exampleIdle_fields exampleWorld_queue)
  have run: "runTicks (replicate 201 GeneratorTick @ [GeneratorTick, QueueTick, GeneratorTick])
        exampleIdle exampleZeroDraws exampleClock =
      (?es, exampleIdle\<lparr>failedTries := 201, wireGeneratorTimer := False\<rparr>,
       exampleZeroDraws, exampleClock)"
    by (simp only: runTicks_append run1 run2 prod.case)
  have no: "\<forall>w. Enqueued w \<in> set ?es \<or> Discarded w \<in> set ?es
      \<longrightarrow> wireIntersects (world exampleIdle) w"
    using exampleZeroWire_intersects by (auto simp: exampleIdle_fields)
  have all: "\<forall>i<length ?es.
          (i < 201 \<longrightarrow> (\<exists>w. ?es ! i = Discarded w))
        \<and> (i = 201 \<longrightarrow> ?es ! i = Stopped)
        \<and> (201 < i \<longrightarrow> ?es ! i = TimerCleared)"
    using admission_stops_after_201 [OF exampleIdle_fields(1,3,4) unitDraws_zero run no]
    by (rule conjunct2)
  have a: "\<exists>w. ?es ! 200 = Discarded w"
    using all [THEN spec, of 200] by simp
  have b: "?es ! 201 = Stopped"
    using all [THEN spec, of 201] by simp
  have c: "?es ! 202 = TimerCleared"
    using all [THEN spec, of 202] by simp
  show ?thesis
    using unitDraws_zero run a b c by blast
qed

text \<open>
  After 200 consecutive failures the next firing of the admission interval still
  generates a candidate and discards it: the counter is then 200, and the test is
  \<open>failedTries > 200\<close>.
\<close>

theorem admission_200_counterexample:
  "generateWire exampleWorld exampleZeroDraws = (Inr exampleZeroWire, exampleZeroDraws)
   \<and> wireIntersects exampleWorld exampleZeroWire
   \<and> runTicks (replicate 200 GeneratorTick) exampleIdle exampleZeroDraws exampleClock =
       (replicate 200 (Discarded exampleZeroWire), exampleIdle\<lparr>failedTries := 200\<rparr>,
        exampleZeroDraws, exampleClock)
   \<and> wireGeneratorTick exampleZeroDraws (exampleIdle\<lparr>failedTries := 200\<rparr>) =
       (Discarded exampleZeroWire, exampleIdle\<lparr>failedTries := 201\<rparr>, exampleZeroDraws)"
proof -
  have run: "runTicks (replicate 200 GeneratorTick) exampleIdle exampleZeroDraws exampleClock =
       (replicate 200 (Discarded exampleZeroWire), exampleIdle\<lparr>failedTries := 200\<rparr>,
        exampleZeroDraws, exampleClock)"
    using runTicks_zero [of exampleIdle 200 exampleClock] by (simp add: exampleIdle_fields)
  have tick: "wireGeneratorTick exampleZeroDraws (exampleIdle\<lparr>failedTries := 200\<rparr>) =
       (Discarded exampleZeroWire, exampleIdle\<lparr>failedTries := 201\<rparr>, exampleZeroDraws)"
    using generateWire_zero exampleZeroWire_intersects
    by (simp add: wireGeneratorTick_def exampleIdle_fields exampleWorld_queue)
  show ?thesis
    using generateWire_zero exampleZeroWire_intersects run tick by blast
qed


end
